theory Spec2Isabelle
  imports Main "HOL-Library.Sublist"
begin

section \<open>JavaScript strings\<close>

text \<open>
  A JavaScript string is modelled as a \<^typ>\<open>string\<close>: one \<^typ>\<open>char\<close> per code unit
  (code units below 256). The network delivers bytes; \<^verbatim>\<open>TextDecoder.decode(value, {stream: true})\<close>
  turns each read into the text it completes, so a read is modelled by the text it
  contributes to the buffer.
\<close>

text \<open>\<^verbatim>\<open>s.startsWith(p)\<close>\<close>

definition startsWith :: "string \<Rightarrow> string \<Rightarrow> bool" where
  "startsWith s p = prefix p s"

text \<open>\<^verbatim>\<open>s.includes(p)\<close>: does \<open>p\<close> start at some position of \<open>s\<close>?\<close>

fun includesStr :: "string \<Rightarrow> string \<Rightarrow> bool" where
  "includesStr [] p = (p = [])"
| "includesStr (c # cs) p = (prefix p (c # cs) \<or> includesStr cs p)"

text \<open>\<^verbatim>\<open>s.slice(n)\<close> for a non-negative \<open>n\<close>\<close>

definition slice :: "string \<Rightarrow> nat \<Rightarrow> string" where
  "slice s n = drop n s"

text \<open>
  The white space and line terminators that \<^verbatim>\<open>String.prototype.trim\<close> strips, among the
  code units below 256: TAB, LF, VT, FF, CR, SPACE and NBSP.
\<close>

definition isWhiteSpace :: "char \<Rightarrow> bool" where
  "isWhiteSpace c = (c = CHR 0x09 \<or> c = CHR 0x0A \<or> c = CHR 0x0B \<or> c = CHR 0x0C
     \<or> c = CHR 0x0D \<or> c = CHR 0x20 \<or> c = CHR 0xA0)"

definition trim :: "string \<Rightarrow> string" where
  "trim s = rev (dropWhile isWhiteSpace (rev (dropWhile isWhiteSpace s)))"

text \<open>
  \<^verbatim>\<open>s.split(sep)\<close> for a non-empty separator: the pieces between the leftmost,
  non-overlapping occurrences of \<open>sep\<close>; always at least one piece. The source only
  calls it with the separators \<^verbatim>\<open>'\n\n'\<close> and \<^verbatim>\<open>'\n'\<close>.
\<close>

fun consHead :: "char \<Rightarrow> string list \<Rightarrow> string list" where
  "consHead c [] = [[c]]"
| "consHead c (p # ps) = (c # p) # ps"

fun split :: "string \<Rightarrow> string \<Rightarrow> string list" where
  "split sep [] = [[]]"
| "split sep (c # cs) =
     (if prefix sep (c # cs) then [] # split sep (drop (length sep - 1) cs)
      else consHead c (split sep cs))"

text \<open>\<^verbatim>\<open>Date.now().toString()\<close>: the decimal digits of a non-negative integer.\<close>

definition digit :: "nat \<Rightarrow> char" where
  "digit d = char_of (48 + d)"

fun toString :: "nat \<Rightarrow> string" where
  "toString n = (if n < 10 then [digit n] else toString (n div 10) @ [digit (n mod 10)])"

declare toString.simps [simp del]

section \<open>The platform\<close>

text \<open>
  The functions of the JavaScript runtime that the code calls on values it does not
  build itself are parameters of the model. \<open>'j\<close> is the type of JavaScript values.
  \<^item> \<open>JSON_parse\<close>: \<^verbatim>\<open>JSON.parse(text)\<close>, \<open>None\<close> when it throws;
  \<^item> \<open>JSON_stringify\<close>: \<^verbatim>\<open>JSON.stringify(s)\<close> of a string;
  \<^item> \<open>ToString\<close>: the conversion applied by \<^verbatim>\<open>string + value\<close>;
  \<^item> \<open>get_data\<close>: the property read \<^verbatim>\<open>value.data\<close>, \<open>None\<close> when it throws
    (on \<^verbatim>\<open>null\<close>).
\<close>

record 'j platform =
  JSON_parse :: "string \<Rightarrow> 'j option"
  JSON_stringify :: "string \<Rightarrow> string"
  ToString :: "'j \<Rightarrow> string"
  get_data :: "'j \<Rightarrow> 'j option"

section \<open>services/api: the stream decoder\<close>

text \<open>The first argument of a call of \<^verbatim>\<open>onChunk\<close>: a decoded JSON value or a string.\<close>

datatype 'j arg = Value 'j | Text string

text \<open>
  One call \<^verbatim>\<open>onChunk(chunk, type)\<close>; the type is \<^verbatim>\<open>'text'\<close>, \<^verbatim>\<open>'visualization'\<close> or
  missing (\<open>None\<close>).
\<close>

type_synonym 'j call = "'j arg \<times> string option"

text \<open>
  The loop over the lines of one event block in \<^verbatim>\<open>streamChatResponse\<close>: the state is
  \<^verbatim>\<open>(eventType, data)\<close>, \<^verbatim>\<open>eventType\<close> being \<^verbatim>\<open>null\<close> (\<open>None\<close>) at the start.
\<close>

definition fieldLine :: "string \<Rightarrow> string option \<times> string \<Rightarrow> string option \<times> string" where
  "fieldLine line st =
     (case st of (eventType, data) \<Rightarrow>
        if startsWith line ''event: '' then (Some (trim (slice line 7)), data)
        else if startsWith line ''data: '' then
          (eventType, data @ (if data \<noteq> [] then ''\<newline>'' else []) @ slice line 6)
        else (eventType, data))"

definition eventFields :: "string \<Rightarrow> string option \<times> string" where
  "eventFields part = fold fieldLine (split ''\<newline>'' part) (None, [])"

text \<open>The body of the loop over the complete parts: the calls of \<^verbatim>\<open>onChunk\<close> one part makes.\<close>

definition dispatch :: "'j platform \<Rightarrow> string \<Rightarrow> 'j call list" where
  "dispatch P part =
     (if trim part = [] then []
      else case eventFields part of (eventType, data) \<Rightarrow>
        if eventType = Some ''chunk'' \<and> data \<noteq> [] then
          (case JSON_parse P data of
             Some text \<Rightarrow> [(Value text, Some ''text'')]
           | None \<Rightarrow> [(Text data, Some ''text'')])
        else if eventType = Some ''visualization'' \<and> data \<noteq> [] then
          (case JSON_parse P data of
             Some viz \<Rightarrow> [(Value viz, Some ''visualization'')]
           | None \<Rightarrow> [])
        else if eventType = Some ''error'' then
          [(Text (''\<newline>[Error: '' @ JSON_stringify P data @ '']''), Some ''text'')]
        else [])"

text \<open>
  The read loop of \<^verbatim>\<open>streamChatResponse\<close>: \<open>buffer\<close> is the text kept from the earlier
  reads, the list holds the reads still to come, and the end of the list is
  \<^verbatim>\<open>done\<close>. The result is the sequence of calls of \<^verbatim>\<open>onChunk\<close>.
\<close>

fun readLoop :: "'j platform \<Rightarrow> string \<Rightarrow> string list \<Rightarrow> 'j call list" where
  "readLoop P buffer [] = []"
| "readLoop P buffer (chunk # chunks) =
     (let parts = split ''\<newline>\<newline>'' (buffer @ chunk)
      in concat (map (dispatch P) (butlast parts)) @ readLoop P (last parts) chunks)"

text \<open>
  What the network does to one request: \<open>NoResponse\<close> when \<^verbatim>\<open>fetch\<close> rejects or the
  status is not ok; otherwise the texts of the successive reads of the body, and whether
  the stream then closes (\<^verbatim>\<open>done\<close>, \<open>True\<close>) or the next read rejects (\<open>False\<close>).
\<close>

datatype response = NoResponse | Body "string list" bool

text \<open>How an \<^verbatim>\<open>async\<close> function settles.\<close>

datatype settled = Fulfilled | Rejected

definition connectionError :: "'j call" where
  "connectionError = (Text ''\<newline>[Connection Error]'', None)"

text \<open>
  \<^verbatim>\<open>streamChatResponse(query, sessionId, onChunk)\<close>: the calls of \<^verbatim>\<open>onChunk\<close> in order, and
  how the promise settles. The \<^verbatim>\<open>catch\<close> block calls \<^verbatim>\<open>onChunk\<close> once more, with no type,
  and throws again.
\<close>

definition streamChatResponse :: "'j platform \<Rightarrow> response \<Rightarrow> 'j call list \<times> settled" where
  "streamChatResponse P resp =
     (case resp of
        NoResponse \<Rightarrow> ([connectionError], Rejected)
      | Body chunks done \<Rightarrow>
          if done then (readLoop P [] chunks, Fulfilled)
          else (readLoop P [] chunks @ [connectionError], Rejected))"

subsection \<open>The one-shot query path\<close>

text \<open>
  The body of the loop over the complete events in \<^verbatim>\<open>fetchSSEData\<close>. \<open>jsonStr\<close> is
  the payload text of an event: what follows \<^verbatim>\<open>data: \<close> in the first line that
  starts with it, when there is such a line. \<open>sseEvent\<close> is \<open>Some r\<close> when the
  function returns \<open>r\<close> at this event and \<open>None\<close> when the loop goes on: a failure of
  \<^verbatim>\<open>JSON.parse(jsonStr)\<close> or of \<^verbatim>\<open>metadata.data\<close> is caught and logged.
\<close>

definition jsonStr :: "string \<Rightarrow> string option" where
  "jsonStr eventStr =
     (case find (\<lambda>l. startsWith l ''data: '') (split ''\<newline>'' eventStr) of
        None \<Rightarrow> None
      | Some dataLine \<Rightarrow> if dataLine \<noteq> [] then Some (slice dataLine 6) else None)"






section \<open>pages/Chat: the session reconciler\<close>

record session =
  sess_id :: string
  title :: "string option"
  sess_created_at :: string

text \<open>
  The \<^verbatim>\<open>meta\<close> of a message: the object \<^verbatim>\<open>{ visualization: chunk }\<close> the stream callback
  builds, or whatever the store holds.
\<close>

datatype 'j meta = Visualization "'j arg" | Stored 'j

text \<open>
  A message. \<open>created_at\<close> holds the instant whose ISO rendering the source stores;
  the failure message has none.
\<close>

record 'j message =
  msg_id :: string
  role :: string
  content :: string
  created_at :: "nat option"
  meta :: "'j meta option"

text \<open>The \<^verbatim>\<open>useState\<close> cells of the component; \<open>user\<close> is \<^verbatim>\<open>user?.id\<close>.\<close>

record 'j chat =
  sessions :: "session list"
  currentSessionId :: "string option"
  messages :: "'j message list"
  inputValue :: string
  isLoading :: bool
  user :: "string option"
  activeMenuId :: "string option"
  editingSessionId :: "string option"
  editTitle :: string
  deletingSessionId :: "string option"

text \<open>What the component asks of the outside world.\<close>

datatype request =
    InsertSession "string option" string
  | Query string string
  | FetchSessions
  | RenameSession "string option" string
  | DeleteSession string
  | Alert string

text \<open>An identifier or \<^verbatim>\<open>null\<close> in a condition: \<^verbatim>\<open>null\<close> and the empty string are falsy.\<close>

definition truthy :: "string option \<Rightarrow> bool" where
  "truthy v = (case v of None \<Rightarrow> False | Some x \<Rightarrow> x \<noteq> [])"

definition handleNewChat :: "'j chat \<Rightarrow> 'j chat" where
  "handleNewChat s = s\<lparr>currentSessionId := None, messages := [], inputValue := []\<rparr>"

subsection \<open>Rename\<close>

text \<open>The title \<^verbatim>\<open>sessions.find(s => s.id === editingSessionId)?.title\<close> equals \<^verbatim>\<open>editTitle\<close>.\<close>

definition titleUnchanged :: "'j chat \<Rightarrow> bool" where
  "titleUnchanged s =
     (case find (\<lambda>x. Some (sess_id x) = editingSessionId s) (sessions s) of
        None \<Rightarrow> False
      | Some x \<Rightarrow> title x = Some (editTitle s))"

text \<open>The optimistic update of \<^verbatim>\<open>saveRename\<close>: the state while the remote call is pending.\<close>

definition renameLocally :: "'j chat \<Rightarrow> 'j chat" where
  "renameLocally s =
     s\<lparr>sessions := map (\<lambda>x. if Some (sess_id x) = editingSessionId s
                              then x\<lparr>title := Some (editTitle s)\<rparr> else x) (sessions s),
       editingSessionId := None\<rparr>"

text \<open>
  \<^verbatim>\<open>saveRename\<close>: the final state and the requests issued; \<open>remote\<close> tells how
  \<^verbatim>\<open>renameSession\<close> settles.
\<close>

definition saveRename :: "settled \<Rightarrow> 'j chat \<Rightarrow> 'j chat \<times> request list" where
  "saveRename remote s =
     (if trim (editTitle s) = [] \<or> titleUnchanged s then (s\<lparr>editingSessionId := None\<rparr>, [])
      else
        let sessionId = editingSessionId s;
            oldSessions = sessions s;
            s1 = renameLocally s
        in case remote of
             Fulfilled \<Rightarrow> (s1, [RenameSession sessionId (editTitle s)])
           | Rejected \<Rightarrow> (s1\<lparr>sessions := oldSessions\<rparr>, [RenameSession sessionId (editTitle s)]))"

subsection \<open>Delete\<close>

text \<open>The optimistic update of \<^verbatim>\<open>executeDelete\<close> for the session \<open>sessionId\<close>.\<close>

definition deleteLocally :: "string \<Rightarrow> 'j chat \<Rightarrow> 'j chat" where
  "deleteLocally sessionId s =
     (let s1 = s\<lparr>deletingSessionId := None,
                 sessions := filter (\<lambda>x. sess_id x \<noteq> sessionId) (sessions s)\<rparr>
      in if currentSessionId s = Some sessionId then handleNewChat s1 else s1)"

text \<open>
  \<^verbatim>\<open>executeDelete\<close>: the state when it settles and the requests issued. On a remote
  failure it starts \<^verbatim>\<open>fetchSessions()\<close> without awaiting it and alerts.
\<close>

definition executeDelete :: "settled \<Rightarrow> 'j chat \<Rightarrow> 'j chat \<times> request list" where
  "executeDelete remote s =
     (case deletingSessionId s of
        None \<Rightarrow> (s, [])
      | Some sessionId \<Rightarrow>
          if sessionId = [] then (s, [])
          else case remote of
                 Fulfilled \<Rightarrow> (deleteLocally sessionId s, [DeleteSession sessionId])
               | Rejected \<Rightarrow> (deleteLocally sessionId s,
                   [DeleteSession sessionId, FetchSessions, Alert ''Failed to delete chat.'']))"

subsection \<open>Send\<close>

text \<open>
  The clock reads of one \<^verbatim>\<open>handleSendMessage\<close>, in the order of the source:
  \<^verbatim>\<open>Date.now()\<close> and \<^verbatim>\<open>new Date()\<close> for the user message, the same two for the assistant
  placeholder, and \<^verbatim>\<open>Date.now()\<close> for the failure message.
\<close>

record clock =
  userNow :: nat
  userDate :: nat
  assistantNow :: nat
  assistantDate :: nat
  errorNow :: nat

text \<open>What \<^verbatim>\<open>msg.content + chunk\<close> appends.\<close>

fun argText :: "'j platform \<Rightarrow> 'j arg \<Rightarrow> string" where
  "argText P (Text t) = t"
| "argText P (Value v) = ToString P v"

text \<open>
  The callback \<^verbatim>\<open>(chunk, type) => setMessages(prev => prev.map(...))\<close>; \<open>applyCall\<close> is
  what it does to the message whose id is \<^verbatim>\<open>assistantMessageId\<close>.
\<close>

definition applyCall :: "'j platform \<Rightarrow> 'j message \<Rightarrow> 'j call \<Rightarrow> 'j message" where
  "applyCall P msg c =
     (case c of (chunk, type) \<Rightarrow>
        if type = Some ''visualization'' then msg\<lparr>meta := Some (Visualization chunk)\<rparr>
        else msg\<lparr>content := content msg @ argText P chunk\<rparr>)"

definition onChunk :: "'j platform \<Rightarrow> string \<Rightarrow> 'j message list \<Rightarrow> 'j call \<Rightarrow> 'j message list" where
  "onChunk P assistantMessageId prev c =
     map (\<lambda>msg. if msg_id msg \<noteq> assistantMessageId then msg else applyCall P msg c) prev"

definition errorMessage :: "clock \<Rightarrow> 'j message" where
  "errorMessage clk =
     \<lparr>msg_id = ''error-'' @ toString (errorNow clk), role = ''assistant'',
      content = ''Error: Unable to process request.'', created_at = None, meta = None\<rparr>"

text \<open>How one \<^verbatim>\<open>handleSendMessage\<close> went: returned at once, or left the \<^verbatim>\<open>try\<close> block
  normally, or through \<^verbatim>\<open>catch\<close>.\<close>

datatype sent = Ignored | Succeeded | Failed

text \<open>
  Step 1 of the \<^verbatim>\<open>try\<close> block: the session to use, created remotely when
  \<^verbatim>\<open>sessionId\<close> is falsy. \<open>inserted\<close> is the answer of the store to the insert: the
  error, or the new row. \<open>Inl\<close> is the \<^verbatim>\<open>throw error\<close>.
\<close>

definition createSession ::
  "(string + session) \<Rightarrow> 'j chat \<Rightarrow> string option \<Rightarrow> (string + string \<times> 'j chat) \<times> request list" where
  "createSession inserted s sessionId =
     (case (if truthy sessionId then sessionId else None) of
        Some existing \<Rightarrow> (Inr (existing, s), [])
      | None \<Rightarrow>
          (case inserted of
             Inl error \<Rightarrow> (Inl error, [InsertSession (user s) ''New Chat''])
           | Inr newSession \<Rightarrow>
               (Inr (sess_id newSession,
                     s\<lparr>currentSessionId := Some (sess_id newSession),
                       sessions := newSession # sessions s\<rparr>),
                [InsertSession (user s) ''New Chat''])))"

text \<open>
  The effect \<^verbatim>\<open>useEffect(() => {...}, [currentSessionId])\<close>: when a render sees another
  current session id than the one before, the component reloads the messages, with
  \<^verbatim>\<open>fetchMessages\<close> for a truthy id and with \<^verbatim>\<open>setMessages([])\<close> otherwise.
  \<^verbatim>\<open>fetchMessages\<close> replaces the whole list by the rows of the store (\<^verbatim>\<open>data || []\<close>)
  unless the store answers with an error, which is logged.
\<close>

definition fetchMessages :: "string + 'j message list \<Rightarrow> 'j message list \<Rightarrow> 'j message list" where
  "fetchMessages answer prev = (case answer of Inl error \<Rightarrow> prev | Inr data \<Rightarrow> data)"

text \<open>
  When the answer to the \<^verbatim>\<open>fetchMessages\<close> of that effect arrives, for a send that
  changes the current session id: not before the send settles (\<open>Pending\<close>), or while
  the send awaits the stream, after so many calls of \<^verbatim>\<open>onChunk\<close> (\<open>Arrived\<close>, with the
  answer of the store). The effect runs after the render that follows the updates of
  step 1 and the placeholder, so its answer never comes before the placeholder.
\<close>

datatype 'j loaded = Pending | Arrived nat "string + 'j message list"

text \<open>
  The reload a change of the current session id from \<open>old\<close> to \<open>new\<close> brings into the
  send: none, or the position among the calls of \<^verbatim>\<open>onChunk\<close> and the answer.
\<close>

definition reload ::
  "string option \<Rightarrow> string option \<Rightarrow> 'j loaded \<Rightarrow> (nat \<times> (string + 'j message list)) option" where
  "reload old new loaded =
     (if new = old then None
      else if truthy new then
        (case loaded of Pending \<Rightarrow> None | Arrived k answer \<Rightarrow> Some (k, answer))
      else Some (0, Inr []))"

text \<open>
  Steps 2 and 3: the placeholder, then the stream folded into the messages, with the
  reload (if one arrives) between two calls. When the stream fails, the last call is
  the one of the \<^verbatim>\<open>catch\<close> block of \<^verbatim>\<open>streamChatResponse\<close>, which nothing can precede
  but the calls of the read loop.
\<close>

definition placeholder :: "clock \<Rightarrow> 'j message" where
  "placeholder clk =
     \<lparr>msg_id = toString (assistantNow clk + 1), role = ''assistant'', content = [],
      created_at = Some (assistantDate clk), meta = None\<rparr>"

definition streamInto ::
  "'j platform \<Rightarrow> clock \<Rightarrow> response \<Rightarrow> (nat \<times> (string + 'j message list)) option \<Rightarrow> 'j chat
     \<Rightarrow> 'j chat \<times> settled" where
  "streamInto P clk resp landing s =
     (let assistantMessageId = toString (assistantNow clk + 1);
          s1 = s\<lparr>messages := messages s @ [placeholder clk]\<rparr>
      in case streamChatResponse P resp of (calls, how) \<Rightarrow>
           (s1\<lparr>messages :=
               (case landing of
                  None \<Rightarrow> foldl (onChunk P assistantMessageId) (messages s1) calls
                | Some (k, answer) \<Rightarrow>
                    let n = min k (case how of Fulfilled \<Rightarrow> length calls
                                             | Rejected \<Rightarrow> length calls - 1)
                    in foldl (onChunk P assistantMessageId)
                         (fetchMessages answer
                            (foldl (onChunk P assistantMessageId) (messages s1) (take n calls)))
                         (drop n calls))\<rparr>,
            how))"

text \<open>
  \<^verbatim>\<open>handleSendMessage\<close>: the state when it settles, the requests it issued and how it
  went. \<open>loaded\<close> is the schedule and the answer of the reload that step 1 may set off.
\<close>

definition handleSendMessage ::
  "'j platform \<Rightarrow> clock \<Rightarrow> (string + session) \<Rightarrow> response \<Rightarrow> 'j loaded \<Rightarrow> 'j chat
     \<Rightarrow> 'j chat \<times> request list \<times> sent" where
  "handleSendMessage P clk inserted resp loaded s =
     (if trim (inputValue s) = [] \<or> isLoading s then (s, [], Ignored)
      else
        let sessionId = currentSessionId s;
            queryText = inputValue s;
            userMessage = \<lparr>msg_id = toString (userNow clk), role = ''user'',
                           content = queryText, created_at = Some (userDate clk), meta = None\<rparr>;
            s1 = s\<lparr>messages := messages s @ [userMessage], inputValue := [], isLoading := True\<rparr>;
            refresh = (if truthy (currentSessionId s) then [FetchSessions] else [])
        in case createSession inserted s1 sessionId of
             (Inl error, reqs) \<Rightarrow>
               (s1\<lparr>messages := messages s1 @ [errorMessage clk], isLoading := False\<rparr>,
                reqs @ refresh, Failed)
           | (Inr (sessionId', s2), reqs) \<Rightarrow>
               (case streamInto P clk resp
                       (reload (currentSessionId s) (currentSessionId s2) loaded) s2 of
                  (s3, Fulfilled) \<Rightarrow>
                    (s3\<lparr>isLoading := False\<rparr>, reqs @ [Query queryText sessionId'] @ refresh,
                     Succeeded)
                | (s3, Rejected) \<Rightarrow>
                    (s3\<lparr>messages := messages s3 @ [errorMessage clk], isLoading := False\<rparr>,
                     reqs @ [Query queryText sessionId'] @ refresh, Failed)))"

section \<open>The data lines of an event, as the specification words them\<close>

text \<open>
  The contents of the lines of an event block that begin with \<^verbatim>\<open>data: \<close>, in their
  order, and the join of a list of lines with one newline between neighbours. The
  code has neither; they state what the decoders are compared with.
\<close>

definition dataContents :: "string \<Rightarrow> string list" where
  "dataContents part =
     map (\<lambda>l. slice l 6) (filter (\<lambda>l. startsWith l ''data: '') (split ''\<newline>'' part))"

fun joinLines :: "string list \<Rightarrow> string" where
  "joinLines [] = []"
| "joinLines [x] = x"
| "joinLines (x # y # ys) = x @ ''\<newline>'' @ joinLines (y # ys)"

section \<open>Auxiliary notions\<close>

text \<open>
  What a whole stream does to one message: nothing unless its id is the one of the
  placeholder, else every call in turn.
\<close>

definition streamed :: "'j platform \<Rightarrow> clock \<Rightarrow> response \<Rightarrow> 'j message \<Rightarrow> 'j message" where
  "streamed P clk resp msg =
     (if msg_id msg \<noteq> toString (assistantNow clk + 1) then msg
      else foldl (applyCall P) msg (fst (streamChatResponse P resp)))"

section \<open>The text a stream delivers, as the specification words it\<close>

text \<open>
  The texts of the calls of \<^verbatim>\<open>onChunk\<close> that are not visualizations, concatenated in
  the order of the calls.
\<close>

definition streamedText :: "'j platform \<Rightarrow> 'j call list \<Rightarrow> string" where
  "streamedText P calls =
     concat (map (\<lambda>c. argText P (fst c)) (filter (\<lambda>c. snd c \<noteq> Some ''visualization'') calls))"

text \<open>
  The wire text of one chunk event with a one-line payload, and the text such a
  payload stands for: its JSON value as \<^verbatim>\<open>string + value\<close> renders it when it is
  JSON, the payload itself otherwise.
\<close>

definition chunkBlock :: "string \<Rightarrow> string" where
  "chunkBlock payload = ''event: chunk\<newline>data: '' @ payload"

definition chunkEvent :: "string \<Rightarrow> string" where
  "chunkEvent payload = chunkBlock payload @ ''\<newline>\<newline>''"

definition payloadText :: "'j platform \<Rightarrow> string \<Rightarrow> string" where
  "payloadText P payload =
     (case JSON_parse P payload of Some v \<Rightarrow> ToString P v | None \<Rightarrow> payload)"


section \<open>A platform for the examples\<close>

text \<open>
  The examples below run on values that are \<^verbatim>\<open>undefined\<close> or strings, with a
  \<^verbatim>\<open>JSON.parse\<close> that knows string literals without escapes (\<open>"abc"\<close>) and fails on
  every other text, as the real one does on the texts the examples give it, and a
  \<^verbatim>\<open>JSON.stringify\<close> that puts a string between quotes, which is right when nothing in
  it needs an escape. Reading \<^verbatim>\<open>.data\<close> of a string gives \<^verbatim>\<open>undefined\<close>; reading it of
  \<^verbatim>\<open>undefined\<close> throws.
\<close>

datatype jsval = Undefined | String string

definition plainChar :: "char \<Rightarrow> bool" where
  "plainChar c = (c \<noteq> CHR 0x22 \<and> c \<noteq> CHR 0x5C \<and> 32 \<le> (of_char c :: nat))"

definition parseStringLiteral :: "string \<Rightarrow> jsval option" where
  "parseStringLiteral s =
     (case s of
        [] \<Rightarrow> None
      | c # cs \<Rightarrow>
          if c = CHR 0x22 \<and> cs \<noteq> [] \<and> last cs = CHR 0x22 \<and> list_all plainChar (butlast cs)
          then Some (String (butlast cs)) else None)"

definition examplePlatform :: "jsval platform" where
  "examplePlatform =
     \<lparr>JSON_parse = parseStringLiteral,
      JSON_stringify = (\<lambda>s. [CHR 0x22] @ s @ [CHR 0x22]),
      ToString = (\<lambda>v. case v of Undefined \<Rightarrow> ''undefined'' | String s \<Rightarrow> s),
      get_data = (\<lambda>v. case v of Undefined \<Rightarrow> None | String s \<Rightarrow> Some Undefined)\<rparr>"


text \<open>A state of the component for the examples: two sessions, the first one open.\<close>

definition exampleChat :: "jsval chat" where
  "exampleChat =
     \<lparr>sessions = [\<lparr>sess_id = ''s1'', title = Some ''Floats'', sess_created_at = ''2024-05-02''\<rparr>,
                  \<lparr>sess_id = ''s2'', title = None, sess_created_at = ''2024-05-01''\<rparr>],
      currentSessionId = Some ''s1'',
      messages = [\<lparr>msg_id = ''m1'', role = ''user'', content = ''hi'', created_at = Some 5,
                   meta = None\<rparr>],
      inputValue = ''where are the floats?'',
      isLoading = False,
      user = Some ''u1'',
      activeMenuId = None,
      editingSessionId = Some ''s1'',
      editTitle = ''Floats'',
      deletingSessionId = Some ''s1''\<rparr>"

definition exampleClock :: clock where
  "exampleClock = \<lparr>userNow = 1000, userDate = 1000, assistantNow = 1002, assistantDate = 1002,
     errorNow = 1005\<rparr>"

text \<open>
  The row the store returns for a new session, a stream of three chunk events cut
  into four reads, and the state of a new chat (no session open, no message).
\<close>

definition exampleSession :: session where
  "exampleSession = \<lparr>sess_id = ''s3'', title = Some ''New Chat'', sess_created_at = ''2024-05-03''\<rparr>"

definition exampleReads :: "string list" where
  "exampleReads = [''event: chunk\<newline>da'', ''ta: A\<newline>\<newline>event: chunk\<newline>data: B\<newline>\<newline>event: ch'',
     ''unk\<newline>data: C\<newline>'', ''\<newline>'']"

definition exampleNewChat :: "jsval chat" where
  "exampleNewChat = exampleChat\<lparr>currentSessionId := None, messages := []\<rparr>"

text \<open>What the store holds of the new session while the stream is under way.\<close>

definition exampleStored :: "jsval message list" where
  "exampleStored = [\<lparr>msg_id = ''7c1e'', role = ''user'', content = ''where are the floats?'',
     created_at = Some 1001, meta = None\<rparr>]"

section \<open>Splitting\<close>

lemma consHead_ne: "consHead c ps \<noteq> []"
  by (cases ps) auto

lemma split_ne: "split sep s \<noteq> []"
  by (induction sep s rule: split.induct) (auto simp: consHead_ne)

lemma split_short: "length s < length sep \<Longrightarrow> split sep s = [s]"
proof (induction s)
  case Nil
  then show ?case by simp
next
  case (Cons c cs)
  then have "\<not> prefix sep (c # cs)"
    by (auto dest: prefix_length_le)
  with Cons show ?case by simp
qed

lemma split_single: "split sep s = [p] \<Longrightarrow> p = s"
proof (induction sep s arbitrary: p rule: split.induct)
  case (1 sep)
  then show ?case by simp
next
  case (2 sep c cs)
  show ?case
  proof (cases "prefix sep (c # cs)")
    case True
    with "2.prems" show ?thesis by (simp add: split_ne)
  next
    case False
    with "2.prems" have h: "consHead c (split sep cs) = [p]" by simp
    then obtain q where q: "split sep cs = [q]" "p = c # q"
      by (cases "split sep cs") (auto simp: split_ne)
    with "2.IH"(2) False show ?thesis by simp
  qed
qed

lemma prefix_straddle:
  assumes "prefix sep (a @ b)" and "\<not> prefix sep a"
  shows "length a < length sep"
proof -
  from assms obtain us where us: "sep = a @ us"
    by (auto simp: prefix_append)
  with assms(2) have "us \<noteq> []" by auto
  with us show ?thesis by simp
qed

lemma split_append:
  "split sep (a @ b) = butlast (split sep a) @ split sep (last (split sep a) @ b)"
proof (induction sep a rule: split.induct)
  case (1 sep)
  then show ?case by simp
next
  case (2 sep c cs)
  show ?case
  proof (cases "prefix sep (c # cs)")
    case True
    then have p: "prefix sep (c # cs @ b)"
      by (metis append_Cons prefix_prefix)
    from True have "length sep \<le> Suc (length cs)"
      by (auto dest: prefix_length_le)
    then have d: "drop (length sep - 1) (cs @ b) = drop (length sep - 1) cs @ b"
      by simp
    from True p d "2.IH"(1) show ?thesis
      by (simp add: split_ne)
  next
    case False
    show ?thesis
    proof (cases "prefix sep (c # cs @ b)")
      case True
      with False have "length (c # cs) < length sep"
        using prefix_straddle [of sep "c # cs" b] by simp
      then have "split sep (c # cs) = [c # cs]" by (rule split_short)
      then show ?thesis by simp
    next
      case nb: False
      show ?thesis
      proof (cases "split sep cs")
        case Nil
        then show ?thesis by (simp add: split_ne)
      next
        case (Cons p ps)
        show ?thesis
        proof (cases ps)
          case Nil
          with Cons have "p = cs" by (simp add: split_single)
          with Cons Nil False nb show ?thesis by simp
        next
          case (Cons q qs)
          with \<open>split sep cs = p # ps\<close> False nb "2.IH"(2) show ?thesis by simp
        qed
      qed
    qed
  qed
qed

lemma butlast_split_append:
  "butlast (split sep (a @ b)) = butlast (split sep a) @ butlast (split sep (last (split sep a) @ b))"
  by (subst split_append) (simp add: butlast_append split_ne)

lemma readLoop_buffer:
  "chunks \<noteq> [] \<Longrightarrow>
   readLoop P buffer chunks =
   concat (map (dispatch P) (butlast (split ''\<newline>\<newline>'' (buffer @ concat chunks))))"
proof (induction chunks arbitrary: buffer)
  case Nil
  then show ?case by simp
next
  case (Cons chunk chunks)
  show ?case
  proof (cases chunks)
    case Nil
    then show ?thesis by simp
  next
    case (Cons c cs)
    then have "chunks \<noteq> []" by simp
    from Cons.IH [OF this]
    have ih: "readLoop P (last (split ''\<newline>\<newline>'' (buffer @ chunk))) chunks =
      concat (map (dispatch P) (butlast (split ''\<newline>\<newline>''
        (last (split ''\<newline>\<newline>'' (buffer @ chunk)) @ concat chunks))))" .
    have "butlast (split ''\<newline>\<newline>'' (buffer @ concat (chunk # chunks))) =
       butlast (split ''\<newline>\<newline>'' (buffer @ chunk)) @
       butlast (split ''\<newline>\<newline>'' (last (split ''\<newline>\<newline>'' (buffer @ chunk)) @ concat chunks))"
      using butlast_split_append [of "''\<newline>\<newline>''" "buffer @ chunk" "concat chunks"] by simp
    with ih show ?thesis by (simp add: Let_def)
  qed
qed

lemma readLoop_concat:
  "readLoop P [] chunks =
   concat (map (dispatch P) (butlast (split ''\<newline>\<newline>'' (concat chunks))))"
proof (cases chunks)
  case Nil
  then show ?thesis by simp
next
  case (Cons c cs)
  then show ?thesis using readLoop_buffer [of chunks P "[]"] by simp
qed


section \<open>The chat-mode decoder\<close>

text \<open>
  C1. However the text of the stream is cut into reads, \<^verbatim>\<open>streamChatResponse\<close> makes the
  same calls of \<^verbatim>\<open>onChunk\<close>, with the same arguments, in the same order, and settles the
  same way: two sequences of reads with the same concatenation cannot be told apart.
\<close>

theorem chunk_boundary_independence:
  "concat chunks = concat chunks' \<Longrightarrow>
   streamChatResponse P (Body chunks done) = streamChatResponse P (Body chunks' done)"
  by (simp add: streamChatResponse_def readLoop_concat)


theorem chunk_boundary_independence_witness:
  "concat [''event: chu'', ''nk\<newline>data: A\<newline>'', ''\<newline>event: error\<newline>\<newline>da'', ''ta: x'']
     = concat [''event: chunk\<newline>data: A\<newline>\<newline>event: error\<newline>\<newline>data: x'']
   \<and> streamChatResponse examplePlatform
        (Body [''event: chu'', ''nk\<newline>data: A\<newline>'', ''\<newline>event: error\<newline>\<newline>da'', ''ta: x''] True)
     = streamChatResponse examplePlatform
        (Body [''event: chunk\<newline>data: A\<newline>\<newline>event: error\<newline>\<newline>data: x''] True)
   \<and> streamChatResponse examplePlatform
        (Body [''event: chunk\<newline>data: A\<newline>\<newline>event: error\<newline>\<newline>data: x''] True)
     = ([(Text ''A'', Some ''text''), (Text (''\<newline>[Error: '' @ [CHR 0x22, CHR 0x22] @ '']''), Some ''text'')], Fulfilled)"
proof -
  have c: "concat [''event: chu'', ''nk\<newline>data: A\<newline>'', ''\<newline>event: error\<newline>\<newline>da'', ''ta: x'']
     = concat [''event: chunk\<newline>data: A\<newline>\<newline>event: error\<newline>\<newline>data: x'']"
    by simp
  have v: "streamChatResponse examplePlatform
        (Body [''event: chunk\<newline>data: A\<newline>\<newline>event: error\<newline>\<newline>data: x''] True)
     = ([(Text ''A'', Some ''text''), (Text (''\<newline>[Error: '' @ [CHR 0x22, CHR 0x22] @ '']''), Some ''text'')], Fulfilled)"
    by code_simp
  from c chunk_boundary_independence [OF c, of examplePlatform True] v show ?thesis
    by simp
qed

subsection \<open>Events with an empty payload\<close>

lemma trim_Nil_all: "trim s = [] \<Longrightarrow> \<forall>c\<in>set s. isWhiteSpace c"
proof -
  assume "trim s = []"
  then have "dropWhile isWhiteSpace (rev (dropWhile isWhiteSpace s)) = []"
    by (simp add: trim_def)
  then have a: "\<forall>c\<in>set (dropWhile isWhiteSpace s). isWhiteSpace c"
    by simp
  have "dropWhile isWhiteSpace s = []"
  proof (rule ccontr)
    assume n: "dropWhile isWhiteSpace s \<noteq> []"
    then have "\<not> isWhiteSpace (hd (dropWhile isWhiteSpace s))" by (rule hd_dropWhile)
    moreover from n have "hd (dropWhile isWhiteSpace s) \<in> set (dropWhile isWhiteSpace s)"
      by simp
    ultimately show False using a by blast
  qed
  then show ?thesis by simp
qed


lemma split_chars: "l \<in> set (split sep s) \<Longrightarrow> set l \<subseteq> set s"
proof (induction sep s arbitrary: l rule: split.induct)
  case (1 sep)
  then show ?case by simp
next
  case (2 sep c cs)
  show ?case
  proof (cases "prefix sep (c # cs)")
    case True
    with "2.prems" have "l = [] \<or> l \<in> set (split sep (drop (length sep - 1) cs))" by simp
    then show ?thesis
    proof
      assume "l = []" then show ?thesis by simp
    next
      assume "l \<in> set (split sep (drop (length sep - 1) cs))"
      with "2.IH"(1) True have "set l \<subseteq> set (drop (length sep - 1) cs)" by simp
      then show ?thesis using set_drop_subset [of "length sep - 1" cs] by auto
    qed
  next
    case False
    with "2.prems" have m: "l \<in> set (consHead c (split sep cs))" by simp
    show ?thesis
    proof (cases "split sep cs")
      case Nil
      with m show ?thesis by simp
    next
      case (Cons p ps)
      with m have "l = c # p \<or> l \<in> set ps" by simp
      then show ?thesis
      proof
        assume "l = c # p"
        moreover from Cons "2.IH"(2) False have "set p \<subseteq> set cs" by simp
        ultimately show ?thesis by auto
      next
        assume "l \<in> set ps"
        with Cons "2.IH"(2) False have "set l \<subseteq> set cs" by simp
        then show ?thesis by auto
      qed
    qed
  qed
qed

lemma fieldLines_type:
  "fst (fold fieldLine ls (et, d)) = Some t \<Longrightarrow>
   et = Some t \<or> (\<exists>l\<in>set ls. startsWith l ''event: '')"
proof (induction ls arbitrary: et d)
  case Nil
  then show ?case by simp
next
  case (Cons l ls)
  obtain et' d' where st: "fieldLine l (et, d) = (et', d')" by (cases "fieldLine l (et, d)")
  with Cons.prems have "fst (fold fieldLine ls (et', d')) = Some t" by simp
  from Cons.IH [OF this] have "et' = Some t \<or> (\<exists>l\<in>set ls. startsWith l ''event: '')" .
  then show ?case
  proof
    assume "et' = Some t"
    with st show ?thesis by (auto simp: fieldLine_def split: if_splits)
  next
    assume "\<exists>l\<in>set ls. startsWith l ''event: ''"
    then show ?thesis by auto
  qed
qed

lemma typed_not_blank:
  assumes "fst (eventFields part) = Some t"
  shows "trim part \<noteq> []"
proof
  assume b: "trim part = []"
  from assms have "\<exists>l\<in>set (split ''\<newline>'' part). startsWith l ''event: ''"
    using fieldLines_type [of "split ''\<newline>'' part" None "[]" t]
    by (simp add: eventFields_def)
  then obtain l where l: "l \<in> set (split ''\<newline>'' part)" "startsWith l ''event: ''" by blast
  from l(2) have "CHR ''e'' \<in> set l" by (auto simp: startsWith_def prefix_def)
  with l(1) have "CHR ''e'' \<in> set part" using split_chars by blast
  with b have "isWhiteSpace CHR ''e''" using trim_Nil_all by blast
  then show False by (simp add: isWhiteSpace_def)
qed



subsection \<open>Several data lines\<close>

text \<open>
  C4. An event block with several data lines should give the contents of those lines
  joined by single newlines, as the comment in \<^verbatim>\<open>streamChatResponse\<close> says. It does not on
  either path. In chat mode the separator is added only when the data gathered so far is
  non-empty, so the block \<^verbatim>\<open>event: chunk\<close>, \<^verbatim>\<open>data: \<close>, \<^verbatim>\<open>data: x\<close>, whose lines join to a
  newline followed by \<open>x\<close>, is delivered as \<open>x\<close>. The one-shot path takes the first
  data line alone, so of the block \<^verbatim>\<open>event: metadata\<close>, \<^verbatim>\<open>data: [1,\<close>, \<^verbatim>\<open>data: 2]\<close> it
  parses \<^verbatim>\<open>[1,\<close>, where the chat-mode decoder assembles both lines.
\<close>

theorem data_lines_not_joined:
  "dataContents ''event: chunk\<newline>data: \<newline>data: x'' = [[], ''x'']
   \<and> joinLines (dataContents ''event: chunk\<newline>data: \<newline>data: x'') = ''\<newline>x''
   \<and> eventFields ''event: chunk\<newline>data: \<newline>data: x'' = (Some ''chunk'', ''x'')
   \<and> dispatch examplePlatform ''event: chunk\<newline>data: \<newline>data: x'' = [(Text ''x'', Some ''text'')]
   \<and> dataContents ''event: metadata\<newline>data: [1,\<newline>data: 2]'' = [''[1,'', ''2]'']
   \<and> joinLines (dataContents ''event: metadata\<newline>data: [1,\<newline>data: 2]'') = ''[1,\<newline>2]''
   \<and> snd (eventFields ''event: metadata\<newline>data: [1,\<newline>data: 2]'') = ''[1,\<newline>2]''
   \<and> jsonStr ''event: metadata\<newline>data: [1,\<newline>data: 2]'' = Some ''[1,''"
  by code_simp

section \<open>The one-shot query path\<close>



lemma includesStr_iff: "includesStr s p \<longleftrightarrow> (\<exists>xs ys. s = xs @ p @ ys)"
proof (induction s)
  case Nil
  then show ?case by auto
next
  case (Cons c cs)
  show ?case
  proof
    assume "includesStr (c # cs) p"
    then have "prefix p (c # cs) \<or> includesStr cs p" by simp
    then show "\<exists>xs ys. c # cs = xs @ p @ ys"
    proof
      assume "prefix p (c # cs)"
      then obtain ys where "c # cs = p @ ys" by (auto simp: prefix_def)
      then have "c # cs = [] @ p @ ys" by simp
      then show ?thesis by blast
    next
      assume "includesStr cs p"
      with Cons.IH obtain xs ys where "cs = xs @ p @ ys" by blast
      then have "c # cs = (c # xs) @ p @ ys" by simp
      then show ?thesis by blast
    qed
  next
    assume "\<exists>xs ys. c # cs = xs @ p @ ys"
    then obtain xs ys where e: "c # cs = xs @ p @ ys" by blast
    show "includesStr (c # cs) p"
    proof (cases xs)
      case Nil
      with e have "prefix p (c # cs)" by (simp add: prefix_def)
      then show ?thesis by simp
    next
      case (Cons x xs')
      with e have "cs = xs' @ p @ ys" by simp
      with Cons.IH have "includesStr cs p" by blast
      then show ?thesis by simp
    qed
  qed
qed











section \<open>Renaming and deleting sessions\<close>

text \<open>
  C5. When the trimmed new title is empty, or the new title is the current title of the
  session being edited, \<^verbatim>\<open>saveRename\<close> only leaves edit mode: the session list is
  untouched and no request is issued, whatever the remote side would have answered.
\<close>

theorem rename_noop:
  assumes "trim (editTitle s) = []
     \<or> (\<exists>x. find (\<lambda>x. Some (sess_id x) = editingSessionId s) (sessions s) = Some x
             \<and> title x = Some (editTitle s))"
  shows "sessions (fst (saveRename remote s)) = sessions s
     \<and> snd (saveRename remote s) = []
     \<and> fst (saveRename remote s) = s\<lparr>editingSessionId := None\<rparr>"
proof -
  from assms have "trim (editTitle s) = [] \<or> titleUnchanged s"
    by (auto simp: titleUnchanged_def)
  then have "saveRename remote s = (s\<lparr>editingSessionId := None\<rparr>, [])"
    by (simp add: saveRename_def)
  then show ?thesis by simp
qed

theorem rename_noop_witness:
  "trim (editTitle (exampleChat\<lparr>editTitle := ''  ''\<rparr>)) = []
   \<and> snd (saveRename Fulfilled (exampleChat\<lparr>editTitle := ''  ''\<rparr>)) = []
   \<and> find (\<lambda>x. Some (sess_id x) = editingSessionId exampleChat) (sessions exampleChat)
       = Some \<lparr>sess_id = ''s1'', title = Some ''Floats'', sess_created_at = ''2024-05-02''\<rparr>
   \<and> editTitle exampleChat = ''Floats''
   \<and> sessions (fst (saveRename Fulfilled exampleChat)) = sessions exampleChat
   \<and> snd (saveRename Fulfilled exampleChat) = []"
proof -
  have a: "trim (editTitle (exampleChat\<lparr>editTitle := ''  ''\<rparr>)) = []"
    by (simp add: trim_def isWhiteSpace_def)
  have b: "find (\<lambda>x. Some (sess_id x) = editingSessionId exampleChat) (sessions exampleChat)
       = Some \<lparr>sess_id = ''s1'', title = Some ''Floats'', sess_created_at = ''2024-05-02''\<rparr>"
    by (simp add: exampleChat_def)
  have c: "editTitle exampleChat = ''Floats''" by (simp add: exampleChat_def)
  from a rename_noop [of "exampleChat\<lparr>editTitle := ''  ''\<rparr>" Fulfilled]
  have 1: "snd (saveRename Fulfilled (exampleChat\<lparr>editTitle := ''  ''\<rparr>)) = []" by blast
  from b c rename_noop [of exampleChat Fulfilled]
  have 2: "sessions (fst (saveRename Fulfilled exampleChat)) = sessions exampleChat
     \<and> snd (saveRename Fulfilled exampleChat) = []" by simp
  from a b c 1 2 show ?thesis by blast
qed

text \<open>
  C6. A rename that goes through and is rejected remotely issues its one request and
  ends with the session list it started from, so every session has the title it had
  before; had the remote call succeeded, the list would hold the new title.
\<close>

theorem rename_failure_reverts:
  assumes "trim (editTitle s) \<noteq> []" and "\<not> titleUnchanged s"
  shows "snd (saveRename Rejected s) = [RenameSession (editingSessionId s) (editTitle s)]
     \<and> sessions (fst (saveRename Rejected s)) = sessions s
     \<and> map title (sessions (fst (saveRename Rejected s))) = map title (sessions s)
     \<and> sessions (fst (saveRename Fulfilled s)) =
         map (\<lambda>x. if Some (sess_id x) = editingSessionId s then x\<lparr>title := Some (editTitle s)\<rparr> else x)
           (sessions s)"
  using assms by (simp add: saveRename_def renameLocally_def Let_def)

theorem rename_failure_reverts_witness:
  "trim (editTitle (exampleChat\<lparr>editTitle := ''Buoys''\<rparr>)) \<noteq> []
   \<and> \<not> titleUnchanged (exampleChat\<lparr>editTitle := ''Buoys''\<rparr>)
   \<and> snd (saveRename Rejected (exampleChat\<lparr>editTitle := ''Buoys''\<rparr>))
       = [RenameSession (Some ''s1'') ''Buoys'']
   \<and> map title (sessions (fst (saveRename Rejected (exampleChat\<lparr>editTitle := ''Buoys''\<rparr>))))
       = [Some ''Floats'', None]
   \<and> map title (sessions (fst (saveRename Fulfilled (exampleChat\<lparr>editTitle := ''Buoys''\<rparr>))))
       = [Some ''Buoys'', None]"
proof -
  have a: "trim (editTitle (exampleChat\<lparr>editTitle := ''Buoys''\<rparr>)) \<noteq> []"
    by (simp add: trim_def isWhiteSpace_def)
  have b: "\<not> titleUnchanged (exampleChat\<lparr>editTitle := ''Buoys''\<rparr>)"
    by (simp add: titleUnchanged_def exampleChat_def)
  from rename_failure_reverts [OF a b] show ?thesis
    using a b by (simp add: exampleChat_def)
qed

text \<open>
  C7. Confirming the deletion of the session that is open removes every session with
  that id from the list, sets the current session id to \<^verbatim>\<open>null\<close> and empties the message
  list, whether the remote deletion then succeeds or fails; the first request is the
  remote deletion.
\<close>

theorem delete_active:
  assumes "truthy (deletingSessionId s)" and "currentSessionId s = deletingSessionId s"
  shows "\<exists>sessionId. deletingSessionId s = Some sessionId
     \<and> sessions (fst (executeDelete remote s)) = filter (\<lambda>x. sess_id x \<noteq> sessionId) (sessions s)
     \<and> sessionId \<notin> sess_id ` set (sessions (fst (executeDelete remote s)))
     \<and> currentSessionId (fst (executeDelete remote s)) = None
     \<and> messages (fst (executeDelete remote s)) = []
     \<and> hd (snd (executeDelete remote s)) = DeleteSession sessionId"
proof -
  from assms(1) obtain sessionId where d: "deletingSessionId s = Some sessionId" "sessionId \<noteq> []"
    by (auto simp: truthy_def split: option.splits)
  with assms(2) have "fst (executeDelete remote s) = deleteLocally sessionId s"
    by (cases remote) (simp_all add: executeDelete_def)
  moreover from d assms(2) have "deleteLocally sessionId s =
     handleNewChat (s\<lparr>deletingSessionId := None,
        sessions := filter (\<lambda>x. sess_id x \<noteq> sessionId) (sessions s)\<rparr>)"
    by (simp add: deleteLocally_def Let_def)
  moreover from d have "hd (snd (executeDelete remote s)) = DeleteSession sessionId"
    by (cases remote) (simp_all add: executeDelete_def)
  ultimately show ?thesis using d by (auto simp: handleNewChat_def)
qed

theorem delete_active_witness:
  "truthy (deletingSessionId exampleChat)
   \<and> currentSessionId exampleChat = deletingSessionId exampleChat
   \<and> map sess_id (sessions (fst (executeDelete Fulfilled exampleChat))) = [''s2'']
   \<and> currentSessionId (fst (executeDelete Fulfilled exampleChat)) = None
   \<and> messages (fst (executeDelete Fulfilled exampleChat)) = []
   \<and> snd (executeDelete Fulfilled exampleChat) = [DeleteSession ''s1'']"
proof -
  have a: "truthy (deletingSessionId exampleChat)" by (simp add: truthy_def exampleChat_def)
  have b: "currentSessionId exampleChat = deletingSessionId exampleChat"
    by (simp add: exampleChat_def)
  have c: "snd (executeDelete Fulfilled exampleChat) = [DeleteSession ''s1'']"
    by (simp add: executeDelete_def exampleChat_def)
  have d: "deletingSessionId exampleChat = Some ''s1''" by (simp add: exampleChat_def)
  have e: "sessions exampleChat =
     [\<lparr>sess_id = ''s1'', title = Some ''Floats'', sess_created_at = ''2024-05-02''\<rparr>,
      \<lparr>sess_id = ''s2'', title = None, sess_created_at = ''2024-05-01''\<rparr>]"
    by (simp add: exampleChat_def)
  from delete_active [OF a b, of Fulfilled] d e
  have "map sess_id (sessions (fst (executeDelete Fulfilled exampleChat))) = [''s2'']
     \<and> currentSessionId (fst (executeDelete Fulfilled exampleChat)) = None
     \<and> messages (fst (executeDelete Fulfilled exampleChat)) = []"
    by auto
  with a b c show ?thesis by blast
qed

section \<open>Sending a message\<close>

subsection \<open>The stream callback\<close>

lemma applyCall_id: "msg_id (applyCall P m c) = msg_id m"
  by (cases c) (simp add: applyCall_def)

lemma applyCall_role: "role (applyCall P m c) = role m"
  by (cases c) (simp add: applyCall_def)


lemma applyCalls_role: "role (foldl (applyCall P) m calls) = role m"
  by (induction calls arbitrary: m) (simp_all add: applyCall_role)

lemma applyCalls_content:
  "content (foldl (applyCall P) m calls) = content m @ streamedText P calls"
proof (induction calls arbitrary: m)
  case Nil
  then show ?case by (simp add: streamedText_def)
next
  case (Cons c calls)
  obtain chunk type where c: "c = (chunk, type)" by (cases c)
  have "content (applyCall P m c) =
      content m @ (if type = Some ''visualization'' then [] else argText P chunk)"
    by (simp add: c applyCall_def)
  with Cons.IH [of "applyCall P m c"] show ?case
    by (simp add: streamedText_def c)
qed

lemma onChunk_fold:
  "foldl (onChunk P a) prev calls =
   map (\<lambda>msg. if msg_id msg \<noteq> a then msg else foldl (applyCall P) msg calls) prev"
proof (induction calls arbitrary: prev)
  case Nil
  then show ?case by (simp add: map_idI)
next
  case (Cons c calls)
  have "foldl (onChunk P a) prev (c # calls) = foldl (onChunk P a) (onChunk P a prev c) calls"
    by simp
  also have "\<dots> = map (\<lambda>msg. if msg_id msg \<noteq> a then msg else foldl (applyCall P) msg calls)
      (onChunk P a prev c)"
    by (rule Cons.IH)
  also have "\<dots> = map (\<lambda>msg. if msg_id msg \<noteq> a then msg else foldl (applyCall P) msg (c # calls)) prev"
    by (simp add: onChunk_def applyCall_id)
  finally show ?case .
qed

lemma streamInto_None:
  "streamInto P clk resp None s =
     (s\<lparr>messages := map (streamed P clk resp) (messages s) @ [streamed P clk resp (placeholder clk)]\<rparr>,
      snd (streamChatResponse P resp))"
  by (cases "streamChatResponse P resp")
     (simp add: streamInto_def Let_def onChunk_fold streamed_def placeholder_def)

lemma streamInto_frame:
  "streamInto P clk resp landing s =
     (s\<lparr>messages := messages (fst (streamInto P clk resp landing s))\<rparr>,
      snd (streamChatResponse P resp))"
  by (cases "streamChatResponse P resp") (simp add: streamInto_def Let_def)

lemma streamed_role: "role (streamed P clk resp m) = role m"
  by (simp add: streamed_def applyCalls_role)



lemma streamed_placeholder:
  "content (streamed P clk resp (placeholder clk)) = streamedText P (fst (streamChatResponse P resp))"
  by (simp add: streamed_def applyCalls_content placeholder_def)

subsection \<open>One send\<close>

text \<open>
  The ways a send that is not ignored can go. The messages are given where no reload
  arrives during the send.
\<close>

lemma send_cases:
  assumes "handleSendMessage P clk inserted resp loaded s = (s', reqs, how)" and "how \<noteq> Ignored"
  defines "u \<equiv> \<lparr>msg_id = toString (userNow clk), role = ''user'', content = inputValue s,
      created_at = Some (userDate clk), meta = None\<rparr>"
  defines "refresh \<equiv> (if truthy (currentSessionId s) then [FetchSessions] else [])"
  shows "trim (inputValue s) \<noteq> [] \<and> \<not> isLoading s \<and>
    ((\<exists>error. \<not> truthy (currentSessionId s) \<and> inserted = Inl error \<and> how = Failed
        \<and> reqs = [InsertSession (user s) ''New Chat''] @ refresh
        \<and> messages s' = messages s @ [u, errorMessage clk]
        \<and> sessions s' = sessions s \<and> currentSessionId s' = currentSessionId s)
     \<or> (\<exists>n. \<not> truthy (currentSessionId s) \<and> inserted = Inr n
        \<and> how = (case snd (streamChatResponse P resp) of Fulfilled \<Rightarrow> Succeeded | Rejected \<Rightarrow> Failed)
        \<and> reqs = [InsertSession (user s) ''New Chat'', Query (inputValue s) (sess_id n)] @ refresh
        \<and> (reload (currentSessionId s) (Some (sess_id n)) loaded = None \<longrightarrow>
             messages s' = map (streamed P clk resp) (messages s @ [u, placeholder clk])
               @ (if how = Failed then [errorMessage clk] else []))
        \<and> sessions s' = n # sessions s \<and> currentSessionId s' = Some (sess_id n))
     \<or> (\<exists>sid. truthy (currentSessionId s) \<and> currentSessionId s = Some sid
        \<and> how = (case snd (streamChatResponse P resp) of Fulfilled \<Rightarrow> Succeeded | Rejected \<Rightarrow> Failed)
        \<and> reqs = [Query (inputValue s) sid] @ refresh
        \<and> messages s' = map (streamed P clk resp) (messages s @ [u, placeholder clk])
             @ (if how = Failed then [errorMessage clk] else [])
        \<and> sessions s' = sessions s \<and> currentSessionId s' = currentSessionId s))"
proof -
  from assms(1,2) have g: "trim (inputValue s) \<noteq> []" "\<not> isLoading s"
    by (auto simp: handleSendMessage_def split: if_splits)
  show ?thesis
  proof (cases "truthy (currentSessionId s)")
    case True
    then obtain sid where sid: "currentSessionId s = Some sid"
      by (auto simp: truthy_def split: option.splits)
    with True assms(1) g show ?thesis
      by (cases "snd (streamChatResponse P resp)")
         (auto simp: handleSendMessage_def createSession_def reload_def streamInto_None Let_def
            u_def refresh_def)
  next
    case False
    show ?thesis
    proof (cases inserted)
      case (Inl error)
      with False assms(1) g show ?thesis
        by (auto simp: handleSendMessage_def createSession_def Let_def u_def refresh_def)
    next
      case (Inr n)
      let ?l = "reload (currentSessionId s) (Some (sess_id n)) loaded"
      let ?s2 = "s\<lparr>messages := messages s @ [u], inputValue := [], isLoading := True,
          currentSessionId := Some (sess_id n), sessions := n # sessions s\<rparr>"
      define ms where "ms = messages (fst (streamInto P clk resp ?l ?s2))"
      have ms: "streamInto P clk resp ?l ?s2 = (?s2\<lparr>messages := ms\<rparr>, snd (streamChatResponse P resp))"
        unfolding ms_def by (rule streamInto_frame)
      have none: "?l = None \<Longrightarrow> ms = map (streamed P clk resp) (messages s @ [u, placeholder clk])"
        unfolding ms_def by (simp add: streamInto_None)
      from Inr False assms(1) g ms none show ?thesis
        by (cases "snd (streamChatResponse P resp)")
           (auto simp: handleSendMessage_def createSession_def Let_def u_def refresh_def)
    qed
  qed
qed

lemma send_ignored:
  "handleSendMessage P clk inserted resp loaded s = (s', reqs, Ignored) \<Longrightarrow> reqs = []"
  by (auto simp: handleSendMessage_def Let_def
      split: if_splits prod.splits sum.splits settled.splits)

text \<open>
  C8. A send that is not ignored issues a refresh of the session list exactly when a
  session was open before it began, and then as its last request, whether the stream
  succeeded or failed. The first send of a new chat creates and opens a session and
  issues no refresh.
\<close>

theorem refresh_iff_active:
  assumes "handleSendMessage P clk inserted resp loaded s = (s', reqs, how)" and "how \<noteq> Ignored"
  shows "(FetchSessions \<in> set reqs \<longleftrightarrow> truthy (currentSessionId s))
     \<and> (truthy (currentSessionId s) \<longrightarrow>
          reqs = butlast reqs @ [FetchSessions] \<and> FetchSessions \<notin> set (butlast reqs))
     \<and> (\<not> truthy (currentSessionId s) \<and> how = Succeeded \<longrightarrow>
          (\<exists>n. inserted = Inr n \<and> currentSessionId s' = Some (sess_id n)
               \<and> sessions s' = n # sessions s))"
  using send_cases [OF assms] by (elim conjE disjE exE) auto

theorem refresh_iff_active_witness:
  "snd (snd (handleSendMessage examplePlatform exampleClock (Inr exampleSession) (Body exampleReads True) Pending exampleChat)) \<noteq> Ignored
   \<and> truthy (currentSessionId exampleChat)
   \<and> fst (snd (handleSendMessage examplePlatform exampleClock (Inr exampleSession) (Body exampleReads True) Pending exampleChat))
       = [Query ''where are the floats?'' ''s1'', FetchSessions]
   \<and> snd (snd (handleSendMessage examplePlatform exampleClock (Inr exampleSession) (Body exampleReads True) (Arrived 1 (Inr exampleStored)) exampleNewChat)) = Succeeded
   \<and> \<not> truthy (currentSessionId exampleNewChat)
   \<and> FetchSessions \<notin> set (fst (snd (handleSendMessage examplePlatform exampleClock (Inr exampleSession) (Body exampleReads True) (Arrived 1 (Inr exampleStored)) exampleNewChat)))
   \<and> currentSessionId (fst (handleSendMessage examplePlatform exampleClock (Inr exampleSession) (Body exampleReads True) (Arrived 1 (Inr exampleStored)) exampleNewChat)) = Some ''s3''"
proof -
  let ?a = "handleSendMessage examplePlatform exampleClock (Inr exampleSession) (Body exampleReads True) Pending exampleChat"
  let ?b = "handleSendMessage examplePlatform exampleClock (Inr exampleSession) (Body exampleReads True) (Arrived 1 (Inr exampleStored)) exampleNewChat"
  have a: "?a = (fst ?a, fst (snd ?a), snd (snd ?a))" by simp
  have b: "?b = (fst ?b, fst (snd ?b), snd (snd ?b))" by simp
  have ha: "snd (snd ?a) \<noteq> Ignored" by code_simp
  have hb: "snd (snd ?b) = Succeeded" by code_simp
  then have hb': "snd (snd ?b) \<noteq> Ignored" by simp
  have ta: "truthy (currentSessionId exampleChat)" by code_simp
  have tb: "\<not> truthy (currentSessionId exampleNewChat)" by code_simp
  have ra: "fst (snd ?a) = [Query ''where are the floats?'' ''s1'', FetchSessions]" by code_simp
  have sid: "sess_id exampleSession = ''s3''" by (simp add: exampleSession_def)
  from refresh_iff_active [OF b hb'] tb hb sid
  have "FetchSessions \<notin> set (fst (snd ?b)) \<and> currentSessionId (fst ?b) = Some ''s3''"
    by auto
  moreover from refresh_iff_active [OF a ha] ta have "FetchSessions \<in> set (fst (snd ?a))"
    by blast
  ultimately show ?thesis using ha ta ra hb tb by blast
qed

subsection \<open>The streamed text\<close>

lemma streamedText_append: "streamedText P (xs @ ys) = streamedText P xs @ streamedText P ys"
  by (simp add: streamedText_def)

lemma split_avoid: "sep \<noteq> [] \<Longrightarrow> hd sep \<notin> set s \<Longrightarrow> split sep s = [s]"
proof (induction s)
  case Nil
  then show ?case by simp
next
  case (Cons c cs)
  then have "\<not> prefix sep (c # cs)"
    by (cases sep) auto
  with Cons show ?case by simp
qed

lemma block_lines:
  "CHR 0x0A \<notin> set p \<Longrightarrow> split ''\<newline>'' (chunkBlock p) = [''event: chunk'', ''data: '' @ p]"
  by (simp add: chunkBlock_def split_avoid)

lemma block_fields:
  assumes "CHR 0x0A \<notin> set p"
  shows "eventFields (chunkBlock p) = (Some ''chunk'', p)"
  unfolding eventFields_def block_lines [OF assms]
  by (simp add: fieldLine_def startsWith_def slice_def trim_def isWhiteSpace_def)

lemma block_dispatch:
  assumes "CHR 0x0A \<notin> set p" and "p \<noteq> []"
  shows "dispatch P (chunkBlock p) =
     [(case JSON_parse P p of Some v \<Rightarrow> Value v | None \<Rightarrow> Text p, Some ''text'')]"
proof -
  have f: "eventFields (chunkBlock p) = (Some ''chunk'', p)"
    using assms(1) by (rule block_fields)
  then have "trim (chunkBlock p) \<noteq> []"
    using typed_not_blank [of "chunkBlock p" "''chunk''"] by simp
  with f assms(2) show ?thesis
    by (simp add: dispatch_def split: option.splits)
qed

lemma no_blank_line: "CHR 0x0A \<notin> set p \<Longrightarrow> \<not> includesStr p ''\<newline>\<newline>''"
  by (auto simp: includesStr_iff)

lemma block_no_blank_line:
  "CHR 0x0A \<notin> set p \<Longrightarrow> \<not> includesStr (chunkBlock p) ''\<newline>\<newline>''"
  by (simp add: chunkBlock_def no_blank_line)

lemma split_block:
  "b \<noteq> [] \<Longrightarrow> last b \<noteq> CHR 0x0A \<Longrightarrow> \<not> includesStr b ''\<newline>\<newline>'' \<Longrightarrow>
   split ''\<newline>\<newline>'' (b @ ''\<newline>\<newline>'' @ rest) = b # split ''\<newline>\<newline>'' rest"
proof (induction b)
  case Nil
  then show ?case by simp
next
  case (Cons c b)
  show ?case
  proof (cases b)
    case Nil
    with Cons.prems show ?thesis by simp
  next
    case (Cons d b')
    with Cons.prems have "\<not> (c = CHR 0x0A \<and> d = CHR 0x0A)" by auto
    moreover from Cons Cons.prems Cons.IH
    have "split ''\<newline>\<newline>'' (b @ ''\<newline>\<newline>'' @ rest) = b # split ''\<newline>\<newline>'' rest"
      by simp
    ultimately show ?thesis using Cons by auto
  qed
qed

lemma chunkEvents_split:
  "\<forall>p\<in>set payloads. p \<noteq> [] \<and> CHR 0x0A \<notin> set p \<Longrightarrow>
   split ''\<newline>\<newline>'' (concat (map chunkEvent payloads)) = map chunkBlock payloads @ [[]]"
proof (induction payloads)
  case Nil
  then show ?case by simp
next
  case (Cons p ps)
  then have p: "p \<noteq> []" "CHR 0x0A \<notin> set p" by simp_all
  have 1: "chunkBlock p \<noteq> []" by (simp add: chunkBlock_def)
  from p have 2: "last (chunkBlock p) \<noteq> CHR 0x0A"
    unfolding chunkBlock_def by (metis last_appendR last_in_set)
  from p(2) have 3: "\<not> includesStr (chunkBlock p) ''\<newline>\<newline>''"
    by (rule block_no_blank_line)
  have "concat (map chunkEvent (p # ps)) =
      chunkBlock p @ ''\<newline>\<newline>'' @ concat (map chunkEvent ps)"
    by (simp add: chunkEvent_def)
  then have "split ''\<newline>\<newline>'' (concat (map chunkEvent (p # ps))) =
      chunkBlock p # split ''\<newline>\<newline>'' (concat (map chunkEvent ps))"
    using split_block [OF 1 2 3] by simp
  with Cons show ?case by simp
qed

lemma chunkEvents_text:
  "\<forall>p\<in>set payloads. p \<noteq> [] \<and> CHR 0x0A \<notin> set p \<Longrightarrow>
   streamedText P (concat (map (dispatch P) (map chunkBlock payloads))) =
     concat (map (payloadText P) payloads)"
proof (induction payloads)
  case Nil
  then show ?case by (simp add: streamedText_def)
next
  case (Cons p ps)
  then have "dispatch P (chunkBlock p) =
     [(case JSON_parse P p of Some v \<Rightarrow> Value v | None \<Rightarrow> Text p, Some ''text'')]"
    by (simp add: block_dispatch)
  then have "streamedText P (dispatch P (chunkBlock p)) = payloadText P p"
    by (simp add: streamedText_def payloadText_def split: option.splits)
  with Cons show ?case by (simp add: streamedText_append)
qed

lemma chunkEvents_decoded:
  assumes "concat reads = concat (map chunkEvent payloads)"
    and "\<forall>p\<in>set payloads. p \<noteq> [] \<and> CHR 0x0A \<notin> set p"
  shows "readLoop P [] reads =
      map (\<lambda>p. (case JSON_parse P p of Some v \<Rightarrow> Value v | None \<Rightarrow> Text p, Some ''text'')) payloads"
    and "streamedText P (readLoop P [] reads) = concat (map (payloadText P) payloads)"
proof -
  have r: "readLoop P [] reads = concat (map (dispatch P) (map chunkBlock payloads))"
    by (simp add: readLoop_concat assms(1) chunkEvents_split [OF assms(2)])
  from assms(2) have "concat (map (dispatch P) (map chunkBlock payloads)) =
      map (\<lambda>p. (case JSON_parse P p of Some v \<Rightarrow> Value v | None \<Rightarrow> Text p, Some ''text'')) payloads"
    by (induction payloads) (simp_all add: block_dispatch)
  with r show "readLoop P [] reads =
      map (\<lambda>p. (case JSON_parse P p of Some v \<Rightarrow> Value v | None \<Rightarrow> Text p, Some ''text'')) payloads"
    by simp
  from r show "streamedText P (readLoop P [] reads) = concat (map (payloadText P) payloads)"
    by (simp only: chunkEvents_text [OF assms(2)])
qed

text \<open>
  A send in a session that is already open: the current session id does not change,
  no reload is set off, and the handler does what the specification asks. Two messages
  are appended, the user's and the assistant's; and when the stream carries the chunk
  events of the payloads, however the reads cut it, the content of the assistant
  message is the texts of the payloads in their order.
\<close>

lemma open_session_send:
  assumes "truthy (currentSessionId s)"
    and "handleSendMessage P clk inserted resp loaded s = (s', reqs, Succeeded)"
  shows "sessions s' = sessions s
     \<and> length (messages s') = length (messages s) + 2
     \<and> map role (messages s') = map role (messages s) @ [''user'', ''assistant'']"
proof -
  define u :: "'a message" where "u = \<lparr>msg_id = toString (userNow clk), role = ''user'',
      content = inputValue s, created_at = Some (userDate clk), meta = None\<rparr>"
  have ne: "Succeeded \<noteq> Ignored" by simp
  from send_cases [OF assms(2) ne] assms(1)
  have "sessions s' = sessions s"
    and "messages s' = map (streamed P clk resp) (messages s @ [u, placeholder clk])"
    by (auto simp: u_def)
  then show ?thesis
    by (simp add: streamed_role comp_def placeholder_def u_def)
qed

lemma open_session_stream_text:
  assumes "truthy (currentSessionId s)"
    and "handleSendMessage P clk inserted (Body reads True) loaded s = (s', reqs, how)"
    and "how \<noteq> Ignored"
    and "concat reads = concat (map chunkEvent payloads)"
    and "\<forall>p\<in>set payloads. p \<noteq> [] \<and> CHR 0x0A \<notin> set p"
  shows "role (messages s' ! Suc (length (messages s))) = ''assistant''
     \<and> content (messages s' ! Suc (length (messages s))) = concat (map (payloadText P) payloads)"
proof -
  define u :: "'a message" where "u = \<lparr>msg_id = toString (userNow clk), role = ''user'',
      content = inputValue s, created_at = Some (userDate clk), meta = None\<rparr>"
  from send_cases [OF assms(2,3)] assms(1)
  have m: "messages s' =
      map (streamed P clk (Body reads True)) (messages s @ [u, placeholder clk])
        @ (if how = Failed then [errorMessage clk] else [])"
    by (auto simp: u_def)
  have i: "messages s' ! Suc (length (messages s)) = streamed P clk (Body reads True) (placeholder clk)"
    by (simp add: m nth_append)
  have "streamedText P (fst (streamChatResponse P (Body reads True))) =
      concat (map (payloadText P) payloads)"
    by (simp add: streamChatResponse_def chunkEvents_decoded(2) [OF assms(4,5)])
  with i show ?thesis
    by (simp add: streamed_placeholder streamed_role) (simp add: placeholder_def)
qed

subsection \<open>The first send of a new chat\<close>

text \<open>
  C2. A successful send in a new chat should leave the new session at the head of the
  list and two more messages, the user's and the assistant's. The session is there,
  but opening it sets off the reload of the messages: when the store answers during
  the send, here with no row yet, its answer replaces the list, and the send ends with
  no message at all. With the answer still pending both messages are there, as they
  are after a send in an open session.
\<close>

theorem new_chat_reload_replaces_messages:
  "\<not> truthy (currentSessionId exampleNewChat)
   \<and> messages exampleNewChat = []
   \<and> snd (snd (handleSendMessage examplePlatform exampleClock (Inr exampleSession)
        (Body exampleReads True) (Arrived 0 (Inr [])) exampleNewChat)) = Succeeded
   \<and> map sess_id (sessions (fst (handleSendMessage examplePlatform exampleClock (Inr exampleSession)
        (Body exampleReads True) (Arrived 0 (Inr [])) exampleNewChat))) = [''s3'', ''s1'', ''s2'']
   \<and> messages (fst (handleSendMessage examplePlatform exampleClock (Inr exampleSession)
        (Body exampleReads True) (Arrived 0 (Inr [])) exampleNewChat)) = []
   \<and> map role (messages (fst (handleSendMessage examplePlatform exampleClock (Inr exampleSession)
        (Body exampleReads True) Pending exampleNewChat))) = [''user'', ''assistant'']"
  by code_simp


end
